theory Spec2Isabelle
  imports Main
begin

section \<open>The scanner of \<open>source/scanner.h\<close>\<close>

subsection \<open>Tokens\<close>

text \<open>
  Modelled from the spec: \<open>tokens.h\<close>, which declares \<open>TokenType\<close>, is not among the
  sources. The spec describes the kinds as a closed set; the type below has one kind
  for each enumerator that \<open>scanner.h\<close> names, all distinct.
\<close>

datatype TokenType =
    END_OF_FILE | IDENTIFIER
  | PLUS | MINUS | ARROW | ASTERISK | DOUBLE_SLASH | MODULO
  | LESS | LESS_EQUAL | GREATER | GREATER_EQUAL | ASSIGN | EQUALS | NOT_EQUAL
  | LEFT_PAREN | RIGHT_PAREN | LEFT_BRACKET | RIGHT_BRACKET | COMMA | COLON | DOT
  | KW_FALSE | KW_NONE | KW_TRUE | KW_AND | KW_AS | KW_ASSERT | KW_ASYNC | KW_AWAIT
  | KW_BREAK | KW_CLASS | KW_CONTINUE | KW_DEF | KW_DEL | KW_ELIF | KW_ELSE
  | KW_EXCEPT | KW_FINALLY | KW_FOR | KW_FROM | KW_GLOBAL | KW_IF | KW_IMPORT
  | KW_IN | KW_IS | KW_LAMBDA | KW_NONLOCAL | KW_NOT | KW_OR | KW_PASS | KW_RAISE
  | KW_RETURN | KW_TRY | KW_WHILE | KW_WITH | KW_YIELD

text \<open>
  \<open>class Token\<close>: the three private fields with their accessors. \<open>std::size_t\<close> is
  modelled by \<open>nat\<close>: the line counter and the cursor are bounded by the length of the
  source text, which a \<open>std::string\<close> keeps below the largest \<open>size_t\<close>, so
  they never wrap.
\<close>

datatype Token = Token (getType: TokenType) (getLexeme: string) (getLine: nat)

subsection \<open>Scanner state\<close>

record Scanner =
  sourceCode :: string
  currentPosition :: nat
  line :: nat

text \<open>The constructor \<open>Scanner(sourceCode)\<close>: cursor 0, line 1.\<close>

definition newScanner :: "string \<Rightarrow> Scanner" where
  "newScanner src = \<lparr>sourceCode = src, currentPosition = 0, line = 1\<rparr>"

text \<open>
  What C++ leaves undefined is a value of the model. \<open>OutOfRange\<close>: a read of the
  source buffer at an index beyond its length. \<open>NoReturn\<close>: control reaches the
  closing brace of \<open>getNextToken\<close>, a function returning \<open>Token\<close>, without a
  \<open>return\<close> statement. A function that can fail returns the failure or its result
  together with the scanner fields as they are at that point.
\<close>

datatype failure = OutOfRange | NoReturn

text \<open>
  \<open>sourceCode_[i]\<close> on a \<open>const std::string\<close>: the character for \<open>i < length\<close>, the
  null character for \<open>i = length\<close>, undefined beyond.
\<close>

definition charAt :: "string \<Rightarrow> nat \<Rightarrow> failure + char" where
  "charAt src i =
     (if i < length src then Inr (src ! i)
      else if i = length src then Inr (CHR 0x00)
      else Inl OutOfRange)"

definition isAtEnd :: "Scanner \<Rightarrow> bool" where
  "isAtEnd s = (length (sourceCode s) \<le> currentPosition s)"

definition getChar :: "Scanner \<Rightarrow> (failure + char) \<times> Scanner" where
  "getChar s =
     (case charAt (sourceCode s) (currentPosition s) of
        Inl e \<Rightarrow> (Inl e, s)
      | Inr c \<Rightarrow> (Inr c, s\<lparr>currentPosition := currentPosition s + 1\<rparr>))"

definition peekChar :: "Scanner \<Rightarrow> failure + char" where
  "peekChar s =
     (if isAtEnd s then Inr (CHR 0x00)
      else charAt (sourceCode s) (currentPosition s + 1))"

definition match :: "char \<Rightarrow> char \<Rightarrow> Scanner \<Rightarrow> bool \<times> Scanner" where
  "match peek expected s =
     (if isAtEnd s \<or> peek \<noteq> expected then (False, s)
      else (True, s\<lparr>currentPosition := currentPosition s + 1\<rparr>))"

text \<open>
  \<open>std::isalpha\<close> and \<open>std::isalnum\<close> on an \<open>unsigned char\<close>, in the "C" locale (the
  program never sets another one): the ASCII letters, and the ASCII letters and digits.
\<close>

definition isalpha_C :: "char \<Rightarrow> bool" where
  "isalpha_C c =
     (let n = (of_char c :: nat) in (65 \<le> n \<and> n \<le> 90) \<or> (97 \<le> n \<and> n \<le> 122))"

definition isalnum_C :: "char \<Rightarrow> bool" where
  "isalnum_C c = (isalpha_C c \<or> (let n = (of_char c :: nat) in 48 \<le> n \<and> n \<le> 57))"

definition isAlpha :: "char \<Rightarrow> bool" where
  "isAlpha c = (isalpha_C c \<or> c = CHR ''_'')"

definition isAlphaNumeric :: "char \<Rightarrow> bool" where
  "isAlphaNumeric c = (isalnum_C c \<or> c = CHR ''_'')"

subsection \<open>Whitespace and comments\<close>

text \<open>
  The inner loop of \<open>skipWhitespaceAndComments\<close>:
  \<open>while (!isAtEnd() && sourceCode_[currentPosition_] != '\n') currentPosition_++;\<close>
\<close>

function skipComment :: "Scanner \<Rightarrow> (failure + unit) \<times> Scanner" where
  "skipComment s =
     (if isAtEnd s then (Inr (), s)
      else case charAt (sourceCode s) (currentPosition s) of
             Inl e \<Rightarrow> (Inl e, s)
           | Inr c \<Rightarrow>
               if c \<noteq> CHR 0x0A
               then skipComment (s\<lparr>currentPosition := currentPosition s + 1\<rparr>)
               else (Inr (), s))"
  by pat_completeness auto
termination
  by (relation "measure (\<lambda>s. length (sourceCode s) - currentPosition s)")
     (auto simp: isAtEnd_def)

declare skipComment.simps [simp del]

lemma skipComment_eq:
  "skipComment s =
     (Inr (), s\<lparr>currentPosition := currentPosition s +
        length (takeWhile (\<lambda>c. c \<noteq> CHR 0x0A) (drop (currentPosition s) (sourceCode s)))\<rparr>)"
proof (induction s rule: skipComment.induct)
  case (1 s)
  show ?case
  proof (cases "isAtEnd s")
    case True
    then show ?thesis
      by (subst skipComment.simps) (simp add: isAtEnd_def)
  next
    case False
    then have lt: "currentPosition s < length (sourceCode s)"
      by (simp add: isAtEnd_def)
    then have rd: "charAt (sourceCode s) (currentPosition s) = Inr (sourceCode s ! currentPosition s)"
      by (simp add: charAt_def)
    have dr: "drop (currentPosition s) (sourceCode s) =
        sourceCode s ! currentPosition s # drop (Suc (currentPosition s)) (sourceCode s)"
      using lt by (simp add: Cons_nth_drop_Suc)
    show ?thesis
    proof (cases "sourceCode s ! currentPosition s = CHR 0x0A")
      case True
      with False rd dr show ?thesis
        by (subst skipComment.simps) simp
    next
      case nl: False
      have "skipComment s = skipComment (s\<lparr>currentPosition := currentPosition s + 1\<rparr>)"
        using False rd nl by (subst skipComment.simps) simp
      also have "\<dots> = (Inr (), s\<lparr>currentPosition := currentPosition s + 1 +
          length (takeWhile (\<lambda>c. c \<noteq> CHR 0x0A) (drop (currentPosition s + 1) (sourceCode s)))\<rparr>)"
        using "1.IH" [OF False rd nl] by simp
      finally show ?thesis
        using dr nl by simp
    qed
  qed
qed

text \<open>\<open>skipWhitespaceAndComments\<close>, the outer loop.\<close>

function skipWhitespaceAndComments :: "Scanner \<Rightarrow> (failure + unit) \<times> Scanner" where
  "skipWhitespaceAndComments s =
     (if isAtEnd s then (Inr (), s)
      else case charAt (sourceCode s) (currentPosition s) of
             Inl e \<Rightarrow> (Inl e, s)
           | Inr c \<Rightarrow>
               if c = CHR '' '' \<or> c = CHR 0x09 \<or> c = CHR 0x0D
               then skipWhitespaceAndComments (s\<lparr>currentPosition := currentPosition s + 1\<rparr>)
               else if c = CHR 0x0A
               then skipWhitespaceAndComments
                      (s\<lparr>currentPosition := currentPosition s + 1, line := line s + 1\<rparr>)
               else if c = CHR ''#''
               then (case skipComment s of
                       (Inl e, s') \<Rightarrow> (Inl e, s')
                     | (Inr u, s') \<Rightarrow> skipWhitespaceAndComments s')
               else (Inr (), s))"
  by pat_completeness auto
termination
proof (relation "measure (\<lambda>s. length (sourceCode s) - currentPosition s)", goal_cases)
  case 1
  show ?case by simp
next
  case (2 s c)
  then show ?case by (simp add: isAtEnd_def)
next
  case (3 s c)
  then show ?case by (simp add: isAtEnd_def)
next
  case (4 s c r s' u)
  from 4(1) have lt: "currentPosition s < length (sourceCode s)"
    by (simp add: isAtEnd_def)
  with 4(2) have "sourceCode s ! currentPosition s = c"
    by (simp add: charAt_def)
  with 4(5) Cons_nth_drop_Suc [OF lt] have "drop (currentPosition s) (sourceCode s) =
      CHR ''#'' # drop (Suc (currentPosition s)) (sourceCode s)"
    by simp
  moreover from 4(6) have "s' = snd (skipComment s)"
    by (metis snd_conv)
  ultimately show ?case
    using lt by (simp add: skipComment_eq)
qed

declare skipWhitespaceAndComments.simps [simp del]

subsection \<open>Identifiers and keywords\<close>

definition getKeywordType :: "string \<Rightarrow> TokenType" where
  "getKeywordType lexeme =
     (if lexeme = ''false'' then KW_FALSE
      else if lexeme = ''none'' then KW_NONE
      else if lexeme = ''true'' then KW_TRUE
      else if lexeme = ''and'' then KW_AND
      else if lexeme = ''as'' then KW_AS
      else if lexeme = ''assert'' then KW_ASSERT
      else if lexeme = ''async'' then KW_ASYNC
      else if lexeme = ''await'' then KW_AWAIT
      else if lexeme = ''break'' then KW_BREAK
      else if lexeme = ''class'' then KW_CLASS
      else if lexeme = ''continue'' then KW_CONTINUE
      else if lexeme = ''def'' then KW_DEF
      else if lexeme = ''del'' then KW_DEL
      else if lexeme = ''elif'' then KW_ELIF
      else if lexeme = ''else'' then KW_ELSE
      else if lexeme = ''except'' then KW_EXCEPT
      else if lexeme = ''finally'' then KW_FINALLY
      else if lexeme = ''for'' then KW_FOR
      else if lexeme = ''from'' then KW_FROM
      else if lexeme = ''global'' then KW_GLOBAL
      else if lexeme = ''if'' then KW_IF
      else if lexeme = ''import'' then KW_IMPORT
      else if lexeme = ''in'' then KW_IN
      else if lexeme = ''is'' then KW_IS
      else if lexeme = ''lambda'' then KW_LAMBDA
      else if lexeme = ''nonlocal'' then KW_NONLOCAL
      else if lexeme = ''not'' then KW_NOT
      else if lexeme = ''or'' then KW_OR
      else if lexeme = ''pass'' then KW_PASS
      else if lexeme = ''raise'' then KW_RAISE
      else if lexeme = ''return'' then KW_RETURN
      else if lexeme = ''try'' then KW_TRY
      else if lexeme = ''while'' then KW_WHILE
      else if lexeme = ''with'' then KW_WITH
      else if lexeme = ''yield'' then KW_YIELD
      else IDENTIFIER)"

text \<open>
  The loop of \<open>scanIdentifier\<close>:
  \<open>while (!isAtEnd() && (isAlphaNumeric(sourceCode_[currentPosition_]) ||
     sourceCode_[currentPosition_] == '_')) lexeme += getChar();\<close>
\<close>

function scanIdentifierLoop :: "string \<Rightarrow> Scanner \<Rightarrow> (failure + string) \<times> Scanner" where
  "scanIdentifierLoop lexeme s =
     (if isAtEnd s then (Inr lexeme, s)
      else case charAt (sourceCode s) (currentPosition s) of
             Inl e \<Rightarrow> (Inl e, s)
           | Inr c \<Rightarrow>
               if isAlphaNumeric c \<or> c = CHR ''_''
               then (case getChar s of
                       (Inl e, s') \<Rightarrow> (Inl e, s')
                     | (Inr c', s') \<Rightarrow> scanIdentifierLoop (lexeme @ [c']) s')
               else (Inr lexeme, s))"
  by pat_completeness auto
termination
  by (relation "measure (\<lambda>(lexeme, s). length (sourceCode s) - currentPosition s)")
     (auto simp: isAtEnd_def getChar_def split: sum.splits)

declare scanIdentifierLoop.simps [simp del]

text \<open>
  \<open>scanIdentifier\<close>. The first character of the lexeme is read at
  \<open>currentPosition_ - 1\<close>, an unsigned subtraction: at cursor 0 the index wraps to the
  largest \<open>size_t\<close>, which is beyond the length of any string.
\<close>

definition scanIdentifier :: "Scanner \<Rightarrow> (failure + Token) \<times> Scanner" where
  "scanIdentifier s =
     (case (if currentPosition s = 0 then Inl OutOfRange
            else charAt (sourceCode s) (currentPosition s - 1)) of
        Inl e \<Rightarrow> (Inl e, s)
      | Inr c0 \<Rightarrow>
          (case scanIdentifierLoop [c0] s of
             (Inl e, s') \<Rightarrow> (Inl e, s')
           | (Inr lexeme, s') \<Rightarrow>
               (Inr (Token (getKeywordType lexeme) lexeme (line s')), s')))"

subsection \<open>The token-producing operation\<close>

text \<open>
  The idiom of the five two-character cases,
  \<open>char nextChar = peekChar(); if (match(nextChar, expected)) return Token(two, ...);
    else ...\<close>: the token of the two-character form when \<open>match\<close> succeeds, otherwise
  whatever the \<open>else\<close> branch leads to.
\<close>

definition lookahead ::
  "char \<Rightarrow> (failure + Token) \<Rightarrow> (failure + Token) \<Rightarrow> Scanner \<Rightarrow> (failure + Token) \<times> Scanner" where
  "lookahead expected two otherwise s =
     (case peekChar s of
        Inl e \<Rightarrow> (Inl e, s)
      | Inr nextChar \<Rightarrow>
          (case match nextChar expected s of
             (True, s') \<Rightarrow> (two, s')
           | (False, s') \<Rightarrow> (otherwise, s')))"

text \<open>
  \<open>getNextToken\<close>. The \<open>else\<close> branch of \<open>case '!'\<close> is empty and has no \<open>break\<close>, so
  control falls through to \<open>case '('\<close>. In the \<open>default\<close> branch a character that is
  not a letter or underscore leaves the \<open>switch\<close> and the function without a \<open>return\<close>.
\<close>

definition getNextToken :: "Scanner \<Rightarrow> (failure + Token) \<times> Scanner" where
  "getNextToken s0 =
     (case skipWhitespaceAndComments s0 of
        (Inl e, s1) \<Rightarrow> (Inl e, s1)
      | (Inr u, s1) \<Rightarrow>
          if isAtEnd s1 then (Inr (Token END_OF_FILE [] (line s1)), s1)
          else
            (case getChar s1 of
               (Inl e, s) \<Rightarrow> (Inl e, s)
             | (Inr c, s) \<Rightarrow>
                 if c = CHR ''+'' then (Inr (Token PLUS ''+'' (line s)), s)
                 else if c = CHR ''-'' then
                   lookahead (CHR ''>'') (Inr (Token ARROW ''->'' (line s)))
                     (Inr (Token MINUS ''-'' (line s))) s
                 else if c = CHR ''*'' then (Inr (Token ASTERISK ''*'' (line s)), s)
                 else if c = CHR ''/'' then (Inr (Token DOUBLE_SLASH ''//'' (line s)), s)
                 else if c = CHR ''%'' then (Inr (Token MODULO ''%'' (line s)), s)
                 else if c = CHR ''<'' then
                   lookahead (CHR ''='') (Inr (Token LESS_EQUAL ''<='' (line s)))
                     (Inr (Token LESS ''<'' (line s))) s
                 else if c = CHR ''>'' then
                   lookahead (CHR ''='') (Inr (Token GREATER_EQUAL ''>='' (line s)))
                     (Inr (Token GREATER ''>'' (line s))) s
                 else if c = CHR ''='' then
                   lookahead (CHR ''='') (Inr (Token EQUALS ''=='' (line s)))
                     (Inr (Token ASSIGN ''='' (line s))) s
                 else if c = CHR ''!'' then
                   lookahead (CHR ''='') (Inr (Token NOT_EQUAL ''!='' (line s)))
                     (Inr (Token LEFT_PAREN ''('' (line s))) s
                 else if c = CHR ''('' then (Inr (Token LEFT_PAREN ''('' (line s)), s)
                 else if c = CHR '')'' then (Inr (Token RIGHT_PAREN '')'' (line s)), s)
                 else if c = CHR ''['' then (Inr (Token LEFT_BRACKET ''['' (line s)), s)
                 else if c = CHR '']'' then (Inr (Token RIGHT_BRACKET '']'' (line s)), s)
                 else if c = CHR '','' then (Inr (Token COMMA '','' (line s)), s)
                 else if c = CHR '':'' then (Inr (Token COLON '':'' (line s)), s)
                 else if c = CHR ''.'' then (Inr (Token DOT ''.'' (line s)), s)
                 else if isAlpha c then scanIdentifier s
                 else (Inl NoReturn, s)))"

subsection \<open>Successive calls\<close>

text \<open>
  The scanner fields after \<open>n\<close> successive calls of \<open>getNextToken\<close>, the way a caller
  pulls tokens one after the other.
\<close>

primrec afterCalls :: "nat \<Rightarrow> Scanner \<Rightarrow> Scanner" where
  "afterCalls 0 s = s"
| "afterCalls (Suc n) s = snd (getNextToken (afterCalls n s))"

section \<open>Notions of the specification\<close>

text \<open>
  The reserved words as the specification lists them for its keyword table, each with
  its keyword kind, and the specification's \<open>classify\<close>: the kind of a listed word,
  the identifier kind for any other text. They are compared with \<open>getKeywordType\<close>
  below.
\<close>

definition spec_keyword_table :: "(string \<times> TokenType) list" where
  "spec_keyword_table =
     [(''and'', KW_AND), (''as'', KW_AS), (''assert'', KW_ASSERT), (''async'', KW_ASYNC),
      (''await'', KW_AWAIT), (''break'', KW_BREAK), (''class'', KW_CLASS),
      (''continue'', KW_CONTINUE), (''def'', KW_DEF), (''del'', KW_DEL), (''elif'', KW_ELIF),
      (''else'', KW_ELSE), (''except'', KW_EXCEPT), (''false'', KW_FALSE),
      (''finally'', KW_FINALLY), (''for'', KW_FOR), (''from'', KW_FROM),
      (''global'', KW_GLOBAL), (''if'', KW_IF), (''import'', KW_IMPORT), (''in'', KW_IN),
      (''is'', KW_IS), (''lambda'', KW_LAMBDA), (''none'', KW_NONE),
      (''nonlocal'', KW_NONLOCAL), (''not'', KW_NOT), (''or'', KW_OR), (''pass'', KW_PASS),
      (''raise'', KW_RAISE), (''return'', KW_RETURN), (''true'', KW_TRUE), (''try'', KW_TRY),
      (''while'', KW_WHILE), (''with'', KW_WITH), (''yield'', KW_YIELD)]"

definition spec_classify :: "string \<Rightarrow> TokenType" where
  "spec_classify text =
     (case map_of spec_keyword_table text of Some kind \<Rightarrow> kind | None \<Rightarrow> IDENTIFIER)"

text \<open>
  A source text that consists only of spaces, tabs, carriage returns, newlines and
  comments, where a comment runs from a \<open>#\<close> up to, and not including, the next newline
  or the end of the text.
\<close>

function (sequential) onlyWhitespaceAndComments :: "string \<Rightarrow> bool" where
  "onlyWhitespaceAndComments [] = True"
| "onlyWhitespaceAndComments (c # cs) =
     (if c = CHR '' '' \<or> c = CHR 0x09 \<or> c = CHR 0x0D \<or> c = CHR 0x0A
      then onlyWhitespaceAndComments cs
      else if c = CHR ''#''
      then onlyWhitespaceAndComments (dropWhile (\<lambda>x. x \<noteq> CHR 0x0A) cs)
      else False)"
  by pat_completeness auto
termination
  by (relation "measure length") (auto simp: less_Suc_eq_le length_dropWhile_le)

section \<open>Properties of the helper operations\<close>

lemma charAt_in_range: "i \<le> length src \<Longrightarrow> \<exists>c. charAt src i = Inr c"
  by (simp add: charAt_def)

lemma charAt_nth: "i < length src \<Longrightarrow> charAt src i = Inr (src ! i)"
  by (simp add: charAt_def)

lemma isAlphaNumeric_or: "(isAlphaNumeric c \<or> c = CHR ''_'') = isAlphaNumeric c"
  by (auto simp: isAlphaNumeric_def)

lemma scanIdentifierLoop_eq:
  "scanIdentifierLoop lexeme s =
     (Inr (lexeme @ takeWhile isAlphaNumeric (drop (currentPosition s) (sourceCode s))),
      s\<lparr>currentPosition := currentPosition s +
        length (takeWhile isAlphaNumeric (drop (currentPosition s) (sourceCode s)))\<rparr>)"
proof (induction lexeme s rule: scanIdentifierLoop.induct)
  case (1 lexeme s)
  show ?case
  proof (cases "isAtEnd s")
    case True
    then show ?thesis
      by (subst scanIdentifierLoop.simps) (simp add: isAtEnd_def)
  next
    case False
    then have lt: "currentPosition s < length (sourceCode s)"
      by (simp add: isAtEnd_def)
    let ?c = "sourceCode s ! currentPosition s"
    have rd: "charAt (sourceCode s) (currentPosition s) = Inr ?c"
      using lt by (rule charAt_nth)
    have gc: "getChar s = (Inr ?c, s\<lparr>currentPosition := currentPosition s + 1\<rparr>)"
      by (simp add: getChar_def rd)
    have dr: "drop (currentPosition s) (sourceCode s) =
        ?c # drop (Suc (currentPosition s)) (sourceCode s)"
      using Cons_nth_drop_Suc [OF lt] by simp
    show ?thesis
    proof (cases "isAlphaNumeric ?c")
      case nan: False
      then have "?c \<noteq> CHR ''_''"
        by (auto simp: isAlphaNumeric_def)
      with False nan rd dr show ?thesis
        by (subst scanIdentifierLoop.simps) simp
    next
      case an: True
      then have an': "isAlphaNumeric ?c \<or> ?c = CHR ''_''"
        by simp
      have "scanIdentifierLoop lexeme s =
          scanIdentifierLoop (lexeme @ [?c]) (s\<lparr>currentPosition := currentPosition s + 1\<rparr>)"
        using False rd gc an by (subst scanIdentifierLoop.simps) simp
      also have "\<dots> = (Inr ((lexeme @ [?c]) @
            takeWhile isAlphaNumeric (drop (currentPosition s + 1) (sourceCode s))),
          s\<lparr>currentPosition := currentPosition s + 1 +
            length (takeWhile isAlphaNumeric (drop (currentPosition s + 1) (sourceCode s)))\<rparr>)"
        using "1.IH" [OF False rd an' gc [symmetric] refl] by simp
      finally show ?thesis
        using dr an by simp
    qed
  qed
qed

lemma skipWhitespaceAndComments_fields:
  "\<exists>p l. skipWhitespaceAndComments s = (Inr (), s\<lparr>currentPosition := p, line := l\<rparr>) \<and>
     currentPosition s \<le> p \<and> line s \<le> l \<and> (p = currentPosition s \<longrightarrow> l = line s)"
proof (induction s rule: skipWhitespaceAndComments.induct)
  case (1 s)
  show ?case
  proof (cases "isAtEnd s")
    case True
    then have "skipWhitespaceAndComments s = (Inr (), s\<lparr>currentPosition := currentPosition s, line := line s\<rparr>)"
      by (subst skipWhitespaceAndComments.simps) simp
    then show ?thesis by blast
  next
    case False
    then have lt: "currentPosition s < length (sourceCode s)"
      by (simp add: isAtEnd_def)
    let ?c = "sourceCode s ! currentPosition s"
    have rd: "charAt (sourceCode s) (currentPosition s) = Inr ?c"
      using lt by (rule charAt_nth)
    consider (ws) "?c = CHR '' '' \<or> ?c = CHR 0x09 \<or> ?c = CHR 0x0D"
      | (nl) "\<not> (?c = CHR '' '' \<or> ?c = CHR 0x09 \<or> ?c = CHR 0x0D)" "?c = CHR 0x0A"
      | (hash) "\<not> (?c = CHR '' '' \<or> ?c = CHR 0x09 \<or> ?c = CHR 0x0D)" "?c \<noteq> CHR 0x0A" "?c = CHR ''#''"
      | (other) "\<not> (?c = CHR '' '' \<or> ?c = CHR 0x09 \<or> ?c = CHR 0x0D)" "?c \<noteq> CHR 0x0A" "?c \<noteq> CHR ''#''"
      by blast
    then show ?thesis
    proof cases
      case ws
      let ?s1 = "s\<lparr>currentPosition := currentPosition s + 1\<rparr>"
      have step: "skipWhitespaceAndComments s = skipWhitespaceAndComments ?s1"
        using False rd ws by (subst skipWhitespaceAndComments.simps) simp
      from "1.IH"(1) [OF False rd ws] obtain p l where
        "skipWhitespaceAndComments ?s1 = (Inr (), ?s1\<lparr>currentPosition := p, line := l\<rparr>)"
        "currentPosition ?s1 \<le> p" "line ?s1 \<le> l"
        by blast
      with step show ?thesis
        by (intro exI [of _ p] exI [of _ l]) simp
    next
      case nl
      let ?s1 = "s\<lparr>currentPosition := currentPosition s + 1, line := line s + 1\<rparr>"
      have step: "skipWhitespaceAndComments s = skipWhitespaceAndComments ?s1"
        using False rd nl by (subst skipWhitespaceAndComments.simps) simp
      from "1.IH"(2) [OF False rd nl] obtain p l where
        "skipWhitespaceAndComments ?s1 = (Inr (), ?s1\<lparr>currentPosition := p, line := l\<rparr>)"
        "currentPosition ?s1 \<le> p" "line ?s1 \<le> l"
        by blast
      with step show ?thesis
        by (intro exI [of _ p] exI [of _ l]) simp
    next
      case hash
      define k where "k = length (takeWhile (\<lambda>c. c \<noteq> CHR 0x0A) (drop (currentPosition s) (sourceCode s)))"
      let ?s1 = "s\<lparr>currentPosition := currentPosition s + k\<rparr>"
      have sc: "skipComment s = (Inr (), ?s1)"
        by (simp add: skipComment_eq k_def)
      have step: "skipWhitespaceAndComments s = skipWhitespaceAndComments ?s1"
        using False rd hash sc by (subst skipWhitespaceAndComments.simps) simp
      have "drop (currentPosition s) (sourceCode s) = ?c # drop (Suc (currentPosition s)) (sourceCode s)"
        using Cons_nth_drop_Suc [OF lt] by simp
      with hash have kpos: "0 < k"
        by (simp add: k_def)
      from "1.IH"(3) [OF False rd hash sc [symmetric] refl] obtain p l where
        "skipWhitespaceAndComments ?s1 = (Inr (), ?s1\<lparr>currentPosition := p, line := l\<rparr>)"
        "currentPosition ?s1 \<le> p" "line ?s1 \<le> l"
        by blast
      with step kpos show ?thesis
        by (intro exI [of _ p] exI [of _ l]) simp
    next
      case other
      have "skipWhitespaceAndComments s = (Inr (), s\<lparr>currentPosition := currentPosition s, line := line s\<rparr>)"
        using False rd other by (subst skipWhitespaceAndComments.simps) simp
      then show ?thesis by blast
    qed
  qed
qed

lemma peekChar_in_range: "\<exists>c. peekChar s = Inr c"
  by (simp add: peekChar_def isAtEnd_def charAt_def)

lemma lookahead_cases:
  "lookahead expected two otherwise s = (two, s\<lparr>currentPosition := currentPosition s + 1\<rparr>) \<or>
   lookahead expected two otherwise s = (otherwise, s)"
proof -
  obtain c where "peekChar s = Inr c"
    using peekChar_in_range by blast
  then show ?thesis
    by (simp add: lookahead_def match_def)
qed

lemma getKeywordType_not_eof: "getKeywordType lexeme \<noteq> END_OF_FILE"
  by (simp add: getKeywordType_def)

lemma scanIdentifier_eq:
  assumes "0 < currentPosition s" "currentPosition s \<le> length (sourceCode s)"
  shows "scanIdentifier s =
     (Inr (Token
        (getKeywordType (sourceCode s ! (currentPosition s - 1) #
           takeWhile isAlphaNumeric (drop (currentPosition s) (sourceCode s))))
        (sourceCode s ! (currentPosition s - 1) #
           takeWhile isAlphaNumeric (drop (currentPosition s) (sourceCode s)))
        (line s)),
      s\<lparr>currentPosition := currentPosition s +
        length (takeWhile isAlphaNumeric (drop (currentPosition s) (sourceCode s)))\<rparr>)"
proof -
  from assms have "currentPosition s - 1 < length (sourceCode s)"
    by simp
  then have "charAt (sourceCode s) (currentPosition s - 1) = Inr (sourceCode s ! (currentPosition s - 1))"
    by (rule charAt_nth)
  with assms(1) show ?thesis
    by (simp add: scanIdentifier_def scanIdentifierLoop_eq)
qed

lemma getNextToken_shape:
  assumes skip: "skipWhitespaceAndComments s0 = (Inr (), s1)"
  shows "(isAtEnd s1 \<and> getNextToken s0 = (Inr (Token END_OF_FILE [] (line s1)), s1)) \<or>
         (\<not> isAtEnd s1 \<and>
          (\<exists>r p. getNextToken s0 = (r, s1\<lparr>currentPosition := p\<rparr>) \<and> currentPosition s1 < p \<and>
             r \<noteq> Inl OutOfRange \<and> (\<forall>t. r = Inr t \<longrightarrow> getType t \<noteq> END_OF_FILE)))"
proof (cases "isAtEnd s1")
  case True
  then show ?thesis
    by (simp add: getNextToken_def skip)
next
  case False
  then have lt: "currentPosition s1 < length (sourceCode s1)"
    by (simp add: isAtEnd_def)
  define c where "c = sourceCode s1 ! currentPosition s1"
  define s where "s = s1\<lparr>currentPosition := currentPosition s1 + 1\<rparr>"
  have gc: "getChar s1 = (Inr c, s)"
    by (simp add: getChar_def charAt_nth [OF lt] c_def s_def)
  define good :: "(failure + Token) \<times> Scanner \<Rightarrow> bool" where
    "good x \<longleftrightarrow> snd x = s1\<lparr>currentPosition := currentPosition (snd x)\<rparr> \<and>
        currentPosition s1 < currentPosition (snd x) \<and>
        fst x \<noteq> Inl OutOfRange \<and> (\<forall>t. fst x = Inr t \<longrightarrow> getType t \<noteq> END_OF_FILE)" for x
  have good_if: "good (if b then x else y)" if "b \<Longrightarrow> good x" "\<not> b \<Longrightarrow> good y" for b x y
    using that by simp
  have tok: "good (Inr (Token K lex (line s)), s)" if "K \<noteq> END_OF_FILE" for K lex
    unfolding good_def s_def using that by simp
  have tok1: "good (Inr (Token K lex (line s)), s\<lparr>currentPosition := currentPosition s + 1\<rparr>)"
    if "K \<noteq> END_OF_FILE" for K lex
    unfolding good_def s_def using that by simp
  have la: "good (lookahead e (Inr (Token K2 l2 (line s))) (Inr (Token K1 l1 (line s))) s)"
    if "K2 \<noteq> END_OF_FILE" "K1 \<noteq> END_OF_FILE" for e K2 l2 K1 l1
    using lookahead_cases [of e "Inr (Token K2 l2 (line s))" "Inr (Token K1 l1 (line s))" s]
      tok [OF that(2), of l1] tok1 [OF that(1), of l2] by auto
  have sc: "good (scanIdentifier s)"
  proof -
    define k where "k = length (takeWhile isAlphaNumeric (drop (currentPosition s) (sourceCode s)))"
    from lt have "0 < currentPosition s" "currentPosition s \<le> length (sourceCode s)"
      by (simp_all add: s_def)
    from scanIdentifier_eq [OF this] show ?thesis
      unfolding good_def k_def [symmetric] s_def
      by (simp add: getKeywordType_not_eof)
  qed
  have nr: "good (Inl NoReturn, s)"
    unfolding good_def s_def by simp
  have "good (getNextToken s0)"
    unfolding getNextToken_def skip prod.case sum.case gc using False
    apply (simp only: if_False)
    apply (intro good_if tok la sc nr)
    apply simp_all
    done
  with False show ?thesis
    by (cases "getNextToken s0") (auto simp: good_def intro: exI [of _ "currentPosition (snd (getNextToken s0))"])
qed

lemma getNextToken_at_end:
  "isAtEnd s \<Longrightarrow> getNextToken s = (Inr (Token END_OF_FILE [] (line s)), s)"
  by (simp add: getNextToken_def skipWhitespaceAndComments.simps)

lemma getNextToken_step:
  "\<exists>r p l. getNextToken s = (r, s\<lparr>currentPosition := p, line := l\<rparr>) \<and>
     r \<noteq> Inl OutOfRange \<and> currentPosition s \<le> p \<and>
     (p = currentPosition s \<longrightarrow> isAtEnd s) \<and>
     (\<forall>t. r = Inr t \<and> getType t = END_OF_FILE \<longrightarrow>
        isAtEnd (s\<lparr>currentPosition := p, line := l\<rparr>) \<and> t = Token END_OF_FILE [] l)"
proof -
  obtain p1 l1 where skip: "skipWhitespaceAndComments s = (Inr (), s\<lparr>currentPosition := p1, line := l1\<rparr>)"
    and le: "currentPosition s \<le> p1" and same: "p1 = currentPosition s \<longrightarrow> l1 = line s"
    using skipWhitespaceAndComments_fields [of s] by blast
  let ?s1 = "s\<lparr>currentPosition := p1, line := l1\<rparr>"
  from getNextToken_shape [OF skip] show ?thesis
  proof (elim disjE conjE exE)
    assume e: "isAtEnd ?s1" and g: "getNextToken s = (Inr (Token END_OF_FILE [] (line ?s1)), ?s1)"
    have "p1 = currentPosition s \<longrightarrow> isAtEnd s"
      using e by (auto simp: isAtEnd_def)
    with g e le show ?thesis
      by (intro exI [of _ "Inr (Token END_OF_FILE [] l1)"] exI [of _ p1] exI [of _ l1]) simp
  next
    fix r p
    assume "\<not> isAtEnd ?s1" and g: "getNextToken s = (r, ?s1\<lparr>currentPosition := p\<rparr>)"
      and lt: "currentPosition ?s1 < p" and r: "r \<noteq> Inl OutOfRange"
      and t: "\<forall>t. r = Inr t \<longrightarrow> getType t \<noteq> END_OF_FILE"
    have "?s1\<lparr>currentPosition := p\<rparr> = s\<lparr>currentPosition := p, line := l1\<rparr>"
      by simp
    with g r t lt le show ?thesis
      by (intro exI [of _ r] exI [of _ p] exI [of _ l1]) auto
  qed
qed

lemma afterCalls_at_end: "isAtEnd s \<Longrightarrow> afterCalls n s = s"
  by (induction n) (simp_all add: getNextToken_at_end)

lemma afterCalls_mono_Suc: "currentPosition (afterCalls n s) \<le> currentPosition (afterCalls (Suc n) s)"
proof -
  obtain r p l where "getNextToken (afterCalls n s) = (r, (afterCalls n s)\<lparr>currentPosition := p, line := l\<rparr>)"
    "currentPosition (afterCalls n s) \<le> p"
    using getNextToken_step [of "afterCalls n s"] by blast
  then show ?thesis by simp
qed

lemma afterCalls_mono: "m \<le> n \<Longrightarrow> currentPosition (afterCalls m s) \<le> currentPosition (afterCalls n s)"
proof (induction n)
  case 0
  then show ?case by simp
next
  case (Suc n)
  show ?case
  proof (cases "m = Suc n")
    case True
    then show ?thesis by simp
  next
    case False
    with Suc.prems have "m \<le> n" by simp
    then have "currentPosition (afterCalls m s) \<le> currentPosition (afterCalls n s)"
      by (rule Suc.IH)
    also have "\<dots> \<le> currentPosition (afterCalls (Suc n) s)"
      by (rule afterCalls_mono_Suc)
    finally show ?thesis .
  qed
qed

lemma getKeywordType_spec: "getKeywordType lexeme = spec_classify lexeme"
  by (simp add: getKeywordType_def spec_classify_def spec_keyword_table_def)

lemma spec_table_facts:
  "length spec_keyword_table = 35" "distinct (map fst spec_keyword_table)"
  "distinct (map snd spec_keyword_table)" "IDENTIFIER \<notin> snd ` set spec_keyword_table"
  by (simp_all add: spec_keyword_table_def)

lemma isAlpha_not_special:
  assumes "isAlpha c"
  shows "c \<notin> set [CHR '' '', CHR 0x09, CHR 0x0D, CHR 0x0A, CHR ''#'', CHR ''+'', CHR ''-'',
    CHR ''*'', CHR ''/'', CHR ''%'', CHR ''<'', CHR ''>'', CHR ''='', CHR ''!'', CHR ''('',
    CHR '')'', CHR ''['', CHR '']'', CHR '','', CHR '':'', CHR ''.'']"
  using assms by (auto simp: isAlpha_def isalpha_C_def)

lemma spec_classify_entry:
  assumes "(w, k) \<in> set spec_keyword_table"
  shows "spec_classify text = k \<longleftrightarrow> text = w"
proof
  assume "text = w"
  with assms spec_table_facts(2) show "spec_classify text = k"
    by (simp add: spec_classify_def)
next
  assume c: "spec_classify text = k"
  show "text = w"
  proof (cases "map_of spec_keyword_table text")
    case None
    with c have "k = IDENTIFIER"
      by (simp add: spec_classify_def)
    with assms spec_table_facts(4) show ?thesis
      by force
  next
    case (Some k')
    with c have "k' = k"
      by (simp add: spec_classify_def)
    with Some have "(text, k) \<in> set spec_keyword_table"
      by (simp add: map_of_SomeD)
    moreover have "inj_on snd (set spec_keyword_table)"
      using spec_table_facts(3) by (simp add: distinct_map)
    ultimately have "fst (text, k) = fst (w, k)"
      using assms inj_onD [of snd "set spec_keyword_table" "(text, k)" "(w, k)"] by simp
    then show ?thesis
      by simp
  qed
qed

lemma spec_classify_identifier:
  "spec_classify text = IDENTIFIER \<longleftrightarrow> text \<notin> fst ` set spec_keyword_table"
proof (cases "map_of spec_keyword_table text")
  case None
  moreover from None have "text \<notin> fst ` set spec_keyword_table"
    by (simp add: map_of_eq_None_iff)
  ultimately show ?thesis
    by (simp add: spec_classify_def)
next
  case (Some k)
  then have m: "(text, k) \<in> set spec_keyword_table"
    by (rule map_of_SomeD)
  then have "text \<in> fst ` set spec_keyword_table"
    by force
  moreover from m spec_table_facts(4) have "k \<noteq> IDENTIFIER"
    by force
  ultimately show ?thesis
    using Some by (simp add: spec_classify_def)
qed

lemma skipWhitespaceAndComments_blank:
  "currentPosition s \<le> length (sourceCode s) \<Longrightarrow>
   onlyWhitespaceAndComments (drop (currentPosition s) (sourceCode s)) \<Longrightarrow>
   skipWhitespaceAndComments s =
     (Inr (), s\<lparr>currentPosition := length (sourceCode s),
        line := line s + count_list (drop (currentPosition s) (sourceCode s)) (CHR 0x0A)\<rparr>)"
proof (induction s rule: skipWhitespaceAndComments.induct)
  case (1 s)
  show ?case
  proof (cases "isAtEnd s")
    case True
    with "1.prems"(1) have "currentPosition s = length (sourceCode s)"
      by (simp add: isAtEnd_def)
    with True show ?thesis
      by (subst skipWhitespaceAndComments.simps) simp
  next
    case False
    then have lt: "currentPosition s < length (sourceCode s)"
      by (simp add: isAtEnd_def)
    let ?c = "sourceCode s ! currentPosition s"
    let ?tl = "drop (Suc (currentPosition s)) (sourceCode s)"
    have rd: "charAt (sourceCode s) (currentPosition s) = Inr ?c"
      using lt by (rule charAt_nth)
    have dr: "drop (currentPosition s) (sourceCode s) = ?c # ?tl"
      using Cons_nth_drop_Suc [OF lt] by simp
    from "1.prems"(2) have blank: "onlyWhitespaceAndComments (?c # ?tl)"
      by (simp only: dr)
    consider (ws) "?c = CHR '' '' \<or> ?c = CHR 0x09 \<or> ?c = CHR 0x0D"
      | (nl) "\<not> (?c = CHR '' '' \<or> ?c = CHR 0x09 \<or> ?c = CHR 0x0D)" "?c = CHR 0x0A"
      | (hash) "\<not> (?c = CHR '' '' \<or> ?c = CHR 0x09 \<or> ?c = CHR 0x0D)" "?c \<noteq> CHR 0x0A" "?c = CHR ''#''"
      | (other) "\<not> (?c = CHR '' '' \<or> ?c = CHR 0x09 \<or> ?c = CHR 0x0D)" "?c \<noteq> CHR 0x0A" "?c \<noteq> CHR ''#''"
      by blast
    then show ?thesis
    proof cases
      case ws
      let ?s1 = "s\<lparr>currentPosition := currentPosition s + 1\<rparr>"
      have step: "skipWhitespaceAndComments s = skipWhitespaceAndComments ?s1"
        using False rd ws by (subst skipWhitespaceAndComments.simps) simp
      have b1: "onlyWhitespaceAndComments (drop (currentPosition ?s1) (sourceCode ?s1))"
        using blank ws by auto
      have "currentPosition ?s1 \<le> length (sourceCode ?s1)"
        using lt by simp
      from "1.IH"(1) [OF False rd ws this b1] step have
        "skipWhitespaceAndComments s = (Inr (), s\<lparr>currentPosition := length (sourceCode s),
           line := line s + count_list ?tl (CHR 0x0A)\<rparr>)"
        by simp
      moreover have "count_list (?c # ?tl) (CHR 0x0A) = count_list ?tl (CHR 0x0A)"
        using ws by auto
      ultimately show ?thesis
        by (simp only: dr)
    next
      case nl
      let ?s1 = "s\<lparr>currentPosition := currentPosition s + 1, line := line s + 1\<rparr>"
      have step: "skipWhitespaceAndComments s = skipWhitespaceAndComments ?s1"
        using False rd nl by (subst skipWhitespaceAndComments.simps) simp
      have b1: "onlyWhitespaceAndComments (drop (currentPosition ?s1) (sourceCode ?s1))"
        using blank nl by simp
      have "currentPosition ?s1 \<le> length (sourceCode ?s1)"
        using lt by simp
      from "1.IH"(2) [OF False rd nl this b1] step have
        "skipWhitespaceAndComments s = (Inr (), s\<lparr>currentPosition := length (sourceCode s),
           line := line s + 1 + count_list ?tl (CHR 0x0A)\<rparr>)"
        by simp
      moreover have "count_list (?c # ?tl) (CHR 0x0A) = 1 + count_list ?tl (CHR 0x0A)"
        using nl by simp
      ultimately show ?thesis
        by (simp only: dr) simp
    next
      case hash
      let ?P = "\<lambda>x. x \<noteq> CHR 0x0A"
      let ?d = "drop (currentPosition s) (sourceCode s)"
      define k where "k = length (takeWhile ?P ?d)"
      let ?s1 = "s\<lparr>currentPosition := currentPosition s + k\<rparr>"
      have sc: "skipComment s = (Inr (), ?s1)"
        by (simp add: skipComment_eq k_def)
      have step: "skipWhitespaceAndComments s = skipWhitespaceAndComments ?s1"
        using False rd hash sc by (subst skipWhitespaceAndComments.simps) simp
      have dk: "drop (currentPosition s + k) (sourceCode s) = dropWhile ?P ?d"
        by (simp add: k_def dropWhile_eq_drop add.commute)
      have "dropWhile ?P ?d = dropWhile ?P ?tl"
        using hash by (simp add: dr)
      moreover have "onlyWhitespaceAndComments (dropWhile ?P ?tl)"
        using blank hash by simp
      ultimately have b1: "onlyWhitespaceAndComments (drop (currentPosition ?s1) (sourceCode ?s1))"
        by (simp add: dk)
      have "k \<le> length ?d"
        unfolding k_def by (rule length_takeWhile_le)
      then have le1: "currentPosition ?s1 \<le> length (sourceCode ?s1)"
        using lt by simp
      have "count_list (takeWhile ?P ?d) (CHR 0x0A) = 0"
        by (auto simp: count_list_0_iff dest: set_takeWhileD)
      moreover have "count_list ?d (CHR 0x0A) =
          count_list (takeWhile ?P ?d) (CHR 0x0A) + count_list (dropWhile ?P ?d) (CHR 0x0A)"
        by (metis count_list_append takeWhile_dropWhile_id)
      ultimately have cnt: "count_list (drop (currentPosition s + k) (sourceCode s)) (CHR 0x0A) =
          count_list ?d (CHR 0x0A)"
        by (simp add: dk)
      from "1.IH"(3) [OF False rd hash sc [symmetric] refl le1 b1] step show ?thesis
        by (simp add: cnt)
    next
      case other
      with blank show ?thesis
        by simp
    qed
  qed
qed

section \<open>Operators\<close>

text \<open>
  C1. The specification requires that at a \<open>/\<close> the scanner emits a one-character division token when the
  following character is not \<open>/\<close>, and a single two-character floor-division token
  when it is. The code does neither: \<open>case '/'\<close> consumes one character and returns
  \<open>Token(DOUBLE_SLASH, "//", line_)\<close> without looking at the next character. On
  \<open>/ 2\<close> the token is the floor-division token with lexeme \<open>//\<close>; on \<open>//\<close> two such
  tokens are produced, one per slash.
\<close>

theorem getNextToken_slash_is_double_slash:
  "getNextToken (newScanner ''/ 2'') =
     (Inr (Token DOUBLE_SLASH ''//'' 1), \<lparr>sourceCode = ''/ 2'', currentPosition = 1, line = 1\<rparr>) \<and>
   getNextToken (newScanner ''//'') =
     (Inr (Token DOUBLE_SLASH ''//'' 1), \<lparr>sourceCode = ''//'', currentPosition = 1, line = 1\<rparr>) \<and>
   getNextToken \<lparr>sourceCode = ''//'', currentPosition = 1, line = 1\<rparr> =
     (Inr (Token DOUBLE_SLASH ''//'' 1), \<lparr>sourceCode = ''//'', currentPosition = 2, line = 1\<rparr>)"
  by code_simp

text \<open>
  C2. The specification requires that the two-character form is decided by the character immediately after
  the one just consumed. In the code \<open>peekChar\<close> is called after \<open>getChar\<close> has moved
  the cursor and reads \<open>sourceCode_[currentPosition_ + 1]\<close>, the character one past
  that. So \<open>->\<close>, \<open><=\<close>, \<open>>=\<close> and \<open>==\<close> scan as two one-character tokens, the
  first call on \<open>!=\<close> gives a left parenthesis, and on \<open><x=\<close> the first call returns
  the token \<open><=\<close> with the cursor moved over the \<open>x\<close>.
\<close>

theorem getNextToken_lookahead_one_past:
  "getNextToken (newScanner ''->'') =
     (Inr (Token MINUS ''-'' 1), \<lparr>sourceCode = ''->'', currentPosition = 1, line = 1\<rparr>) \<and>
   getNextToken \<lparr>sourceCode = ''->'', currentPosition = 1, line = 1\<rparr> =
     (Inr (Token GREATER ''>'' 1), \<lparr>sourceCode = ''->'', currentPosition = 2, line = 1\<rparr>) \<and>
   getNextToken (newScanner ''<='') =
     (Inr (Token LESS ''<'' 1), \<lparr>sourceCode = ''<='', currentPosition = 1, line = 1\<rparr>) \<and>
   getNextToken (newScanner ''>='') =
     (Inr (Token GREATER ''>'' 1), \<lparr>sourceCode = ''>='', currentPosition = 1, line = 1\<rparr>) \<and>
   getNextToken (newScanner ''=='') =
     (Inr (Token ASSIGN ''='' 1), \<lparr>sourceCode = ''=='', currentPosition = 1, line = 1\<rparr>) \<and>
   getNextToken (newScanner ''!='') =
     (Inr (Token LEFT_PAREN ''('' 1), \<lparr>sourceCode = ''!='', currentPosition = 1, line = 1\<rparr>) \<and>
   getNextToken (newScanner ''<x='') =
     (Inr (Token LESS_EQUAL ''<='' 1), \<lparr>sourceCode = ''<x='', currentPosition = 2, line = 1\<rparr>)"
  by code_simp

text \<open>
  C3. The specification requires that a \<open>!\<close> not followed by \<open>=\<close> yields exactly one error token.
  In the code the \<open>else\<close> branch of \<open>case '!'\<close> holds only the comment
  \<open>handle error and skip to next char\<close>; control falls through to \<open>case '('\<close> and the
  call returns a left-parenthesis token with lexeme \<open>(\<close>.
\<close>

theorem getNextToken_bare_bang:
  "getNextToken (newScanner ''!'') =
     (Inr (Token LEFT_PAREN ''('' 1), \<lparr>sourceCode = ''!'', currentPosition = 1, line = 1\<rparr>) \<and>
   getNextToken (newScanner ''!a'') =
     (Inr (Token LEFT_PAREN ''('' 1), \<lparr>sourceCode = ''!a'', currentPosition = 1, line = 1\<rparr>)"
  by code_simp

text \<open>
  C4. The specification requires that a character matching no token-start rule yields an error token
  carrying the character and the line, and the call always returns a token. In the code
  the \<open>default\<close> branch returns only for a letter or underscore; for any other character
  control reaches the end of \<open>getNextToken\<close> without a \<open>return\<close>, so no token is
  produced.
\<close>

theorem getNextToken_unrecognized_no_return:
  "getNextToken (newScanner ''@'') =
     (Inl NoReturn, \<lparr>sourceCode = ''@'', currentPosition = 1, line = 1\<rparr>) \<and>
   getNextToken (newScanner ''x $'') =
     (Inr (Token IDENTIFIER ''x'' 1), \<lparr>sourceCode = ''x $'', currentPosition = 1, line = 1\<rparr>) \<and>
   getNextToken \<lparr>sourceCode = ''x $'', currentPosition = 1, line = 1\<rparr> =
     (Inl NoReturn, \<lparr>sourceCode = ''x $'', currentPosition = 3, line = 1\<rparr>)"
  by code_simp

section \<open>Keywords and identifiers\<close>

text \<open>
  C5. When the cursor is at the first character of a maximal run of letters, digits and
  underscores that starts with a letter or underscore, \<open>getNextToken\<close> returns one
  token whose lexeme is the run, on the current line, and leaves the cursor right after
  the run. Its kind is the specification's classification of the run: the keyword kind
  of the reserved word when the run is, character for character, one of the 35 reserved
  words, and the identifier kind exactly when it is none of them.
\<close>

theorem getNextToken_keyword_or_identifier:
  assumes src: "sourceCode s = pre @ run @ rest" and pos: "currentPosition s = length pre"
    and ne: "run \<noteq> []" and first: "isAlpha (hd run)"
    and run: "\<forall>c \<in> set run. isAlphaNumeric c"
    and maximal: "rest \<noteq> [] \<longrightarrow> \<not> isAlphaNumeric (hd rest)"
  shows "getNextToken s =
      (Inr (Token (spec_classify run) run (line s)),
       s\<lparr>currentPosition := length pre + length run\<rparr>) \<and>
    (spec_classify run = IDENTIFIER \<longleftrightarrow> run \<notin> fst ` set spec_keyword_table) \<and>
    (\<forall>(w, k) \<in> set spec_keyword_table. spec_classify run = k \<longleftrightarrow> run = w)"
proof (intro conjI)
  from ne obtain c run' where r: "run = c # run'"
    by (cases run) auto
  with first have alpha: "isAlpha c"
    by simp
  note ns = isAlpha_not_special [OF alpha]
  have lt: "currentPosition s < length (sourceCode s)"
    by (simp add: src pos r)
  have nth: "sourceCode s ! currentPosition s = c"
    by (simp add: src pos r)
  have rd: "charAt (sourceCode s) (currentPosition s) = Inr c"
    using charAt_nth [OF lt] nth by simp
  have nend: "\<not> isAtEnd s"
    using lt by (simp add: isAtEnd_def)
  have skip: "skipWhitespaceAndComments s = (Inr (), s)"
    using nend rd ns by (subst skipWhitespaceAndComments.simps) simp
  let ?s2 = "s\<lparr>currentPosition := currentPosition s + 1\<rparr>"
  have gc: "getChar s = (Inr c, ?s2)"
    by (simp add: getChar_def rd)
  have disp: "getNextToken s = scanIdentifier ?s2"
    using ns alpha nend by (simp add: getNextToken_def skip gc)
  have dr: "drop (currentPosition ?s2) (sourceCode ?s2) = run' @ rest"
    by (simp add: src pos r)
  have "\<forall>x \<in> set run'. isAlphaNumeric x"
    using run r by simp
  then have "takeWhile isAlphaNumeric (run' @ rest) = run' @ takeWhile isAlphaNumeric rest"
    by (simp add: takeWhile_append2)
  moreover have "takeWhile isAlphaNumeric rest = []"
    using maximal by (auto simp: takeWhile_eq_Nil_iff)
  ultimately have tw: "takeWhile isAlphaNumeric (drop (currentPosition ?s2) (sourceCode ?s2)) = run'"
    using dr by simp
  have prev: "sourceCode ?s2 ! (currentPosition ?s2 - 1) = c"
    using nth by simp
  have "0 < currentPosition ?s2" "currentPosition ?s2 \<le> length (sourceCode ?s2)"
    using lt by simp_all
  from scanIdentifier_eq [OF this] have "scanIdentifier ?s2 =
      (Inr (Token (getKeywordType run) run (line s)),
       s\<lparr>currentPosition := currentPosition s + 1 + length run'\<rparr>)"
    unfolding tw prev by (simp add: r)
  with disp show "getNextToken s =
      (Inr (Token (spec_classify run) run (line s)),
       s\<lparr>currentPosition := length pre + length run\<rparr>)"
    by (simp add: getKeywordType_spec pos r)
next
  show "spec_classify run = IDENTIFIER \<longleftrightarrow> run \<notin> fst ` set spec_keyword_table"
    by (rule spec_classify_identifier)
next
  show "\<forall>(w, k) \<in> set spec_keyword_table. spec_classify run = k \<longleftrightarrow> run = w"
    using spec_classify_entry by blast
qed

theorem getNextToken_keyword_or_identifier_witness:
  "getNextToken \<lparr>sourceCode = ''x while('', currentPosition = 2, line = 4\<rparr> =
     (Inr (Token KW_WHILE ''while'' 4),
      \<lparr>sourceCode = ''x while('', currentPosition = 7, line = 4\<rparr>) \<and>
   (''while'', KW_WHILE) \<in> set spec_keyword_table \<and>
   getNextToken \<lparr>sourceCode = ''While_1 '', currentPosition = 0, line = 4\<rparr> =
     (Inr (Token IDENTIFIER ''While_1'' 4),
      \<lparr>sourceCode = ''While_1 '', currentPosition = 7, line = 4\<rparr>)"
proof -
  have k: "(''while'', KW_WHILE) \<in> set spec_keyword_table"
    by (simp add: spec_keyword_table_def)
  have a: "isAlpha (hd ''while'')" "\<forall>c \<in> set ''while''. isAlphaNumeric c"
    "''('' \<noteq> [] \<longrightarrow> \<not> isAlphaNumeric (hd ''('')"
    by (simp_all add: isAlpha_def isAlphaNumeric_def isalnum_C_def isalpha_C_def)
  have c: "spec_classify ''while'' = KW_WHILE"
    by (simp add: spec_classify_def spec_keyword_table_def)
  have b: "isAlpha (hd ''While_1'')" "\<forall>c \<in> set ''While_1''. isAlphaNumeric c"
    "'' '' \<noteq> [] \<longrightarrow> \<not> isAlphaNumeric (hd '' '')"
    by (simp_all add: isAlpha_def isAlphaNumeric_def isalnum_C_def isalpha_C_def)
  have d: "spec_classify ''While_1'' = IDENTIFIER"
    by (simp add: spec_classify_def spec_keyword_table_def)
  show ?thesis
    using getNextToken_keyword_or_identifier
      [of "\<lparr>sourceCode = ''x while('', currentPosition = 2, line = 4\<rparr>" "''x ''" "''while''" "''(''",
        OF _ _ _ a]
      getNextToken_keyword_or_identifier
      [of "\<lparr>sourceCode = ''While_1 '', currentPosition = 0, line = 4\<rparr>" "[]" "''While_1''" "'' ''",
        OF _ _ _ b]
      k c d
    by simp
qed

section \<open>The cursor and the end of input\<close>

text \<open>
  C6. Over any sequence of \<open>getNextToken\<close> calls the cursor never decreases. Each call
  either moves the cursor forward by at least one character, or the cursor is already at
  the end of the source and the call returns the end-of-input token with the scanner
  unchanged. Once the cursor is at the end, and likewise after any call that returned an
  end-of-input token, every further call returns that same token and leaves the scanner
  as it is.
\<close>

theorem getNextToken_cursor_invariant:
  "(m \<le> n \<longrightarrow> currentPosition (afterCalls m s) \<le> currentPosition (afterCalls n s)) \<and>
   (currentPosition s < currentPosition (snd (getNextToken s)) \<or>
      isAtEnd s \<and> getNextToken s = (Inr (Token END_OF_FILE [] (line s)), s)) \<and>
   (isAtEnd s \<longrightarrow> getNextToken (afterCalls n s) = (Inr (Token END_OF_FILE [] (line s)), s)) \<and>
   (fst (getNextToken s) = Inr t \<and> getType t = END_OF_FILE \<longrightarrow>
      isAtEnd (snd (getNextToken s)) \<and>
      getNextToken (afterCalls n (snd (getNextToken s))) = (Inr t, snd (getNextToken s)))"
proof (intro conjI impI)
  assume "m \<le> n"
  then show "currentPosition (afterCalls m s) \<le> currentPosition (afterCalls n s)"
    by (rule afterCalls_mono)
next
  obtain r p l where g: "getNextToken s = (r, s\<lparr>currentPosition := p, line := l\<rparr>)"
    and "currentPosition s \<le> p" "p = currentPosition s \<longrightarrow> isAtEnd s"
    using getNextToken_step [of s] by blast
  then show "currentPosition s < currentPosition (snd (getNextToken s)) \<or>
      isAtEnd s \<and> getNextToken s = (Inr (Token END_OF_FILE [] (line s)), s)"
    by (cases "p = currentPosition s") (simp_all add: getNextToken_at_end)
next
  assume "isAtEnd s"
  then show "getNextToken (afterCalls n s) = (Inr (Token END_OF_FILE [] (line s)), s)"
    by (simp add: afterCalls_at_end getNextToken_at_end)
next
  assume a: "fst (getNextToken s) = Inr t \<and> getType t = END_OF_FILE"
  obtain r p l where g: "getNextToken s = (r, s\<lparr>currentPosition := p, line := l\<rparr>)"
    and e: "\<forall>t. r = Inr t \<and> getType t = END_OF_FILE \<longrightarrow>
        isAtEnd (s\<lparr>currentPosition := p, line := l\<rparr>) \<and> t = Token END_OF_FILE [] l"
    using getNextToken_step [of s] by blast
  from a g have "r = Inr t" by simp
  with a e have end': "isAtEnd (s\<lparr>currentPosition := p, line := l\<rparr>)" and t: "t = Token END_OF_FILE [] l"
    by blast+
  from end' g show "isAtEnd (snd (getNextToken s))" by simp
  from end' g t \<open>r = Inr t\<close>
  show "getNextToken (afterCalls n (snd (getNextToken s))) = (Inr t, snd (getNextToken s))"
    by (simp add: afterCalls_at_end getNextToken_at_end)
qed

theorem getNextToken_cursor_invariant_witness:
  "isAtEnd \<lparr>sourceCode = ''if'', currentPosition = 2, line = 3\<rparr> \<and>
   fst (getNextToken \<lparr>sourceCode = ''if'', currentPosition = 2, line = 3\<rparr>) =
     Inr (Token END_OF_FILE [] 3) \<and>
   getNextToken (afterCalls 2 \<lparr>sourceCode = ''if'', currentPosition = 2, line = 3\<rparr>) =
     (Inr (Token END_OF_FILE [] 3), \<lparr>sourceCode = ''if'', currentPosition = 2, line = 3\<rparr>)"
proof -
  have g: "getNextToken \<lparr>sourceCode = ''if'', currentPosition = 2, line = 3\<rparr> =
      (Inr (Token END_OF_FILE [] 3), \<lparr>sourceCode = ''if'', currentPosition = 2, line = 3\<rparr>)"
    by code_simp
  show ?thesis
    using getNextToken_cursor_invariant
      [of 0 2 "\<lparr>sourceCode = ''if'', currentPosition = 2, line = 3\<rparr>" "Token END_OF_FILE [] 3"]
    by (simp add: isAtEnd_def g)
qed

section \<open>Line numbers\<close>

text \<open>
  C7. The specification requires that a token preceded by \<open>n\<close> newlines carries
  line \<open>n + 1\<close>. In the code \<open>match\<close> advances the cursor over the character after the
  operator without looking at it (the lookahead of C2 compared the character one
  further on); when that character is a newline it is consumed and the line counter is
  not incremented. In the source \<open>-\<close>, newline, \<open>>\<close> the second token starts after one
  newline and carries line 1.
\<close>

theorem getNextToken_line_after_skipped_newline:
  "count_list (take 2 [CHR ''-'', CHR 0x0A, CHR ''>'']) (CHR 0x0A) = 1 \<and>
   getNextToken (newScanner [CHR ''-'', CHR 0x0A, CHR ''>'']) =
     (Inr (Token ARROW ''->'' 1),
      \<lparr>sourceCode = [CHR ''-'', CHR 0x0A, CHR ''>''], currentPosition = 2, line = 1\<rparr>) \<and>
   getNextToken \<lparr>sourceCode = [CHR ''-'', CHR 0x0A, CHR ''>''], currentPosition = 2, line = 1\<rparr> =
     (Inr (Token GREATER ''>'' 1),
      \<lparr>sourceCode = [CHR ''-'', CHR 0x0A, CHR ''>''], currentPosition = 3, line = 1\<rparr>)"
  by code_simp

section \<open>Literals\<close>

text \<open>
  C8. The specification requires a numeric literal at a digit and, at a quote character, a
  string literal. The code has no case for either: a digit or a quote reaches the
  \<open>default\<close> branch, is not a letter or underscore, and control leaves
  \<open>getNextToken\<close> without a \<open>return\<close>.
\<close>

theorem getNextToken_digit_quote_no_return:
  "getNextToken (newScanner ''7'') =
     (Inl NoReturn, \<lparr>sourceCode = ''7'', currentPosition = 1, line = 1\<rparr>) \<and>
   getNextToken (newScanner [CHR 0x22, CHR ''a'', CHR 0x22]) =
     (Inl NoReturn, \<lparr>sourceCode = [CHR 0x22, CHR ''a'', CHR 0x22], currentPosition = 1, line = 1\<rparr>) \<and>
   getNextToken (newScanner [CHR 0x27, CHR ''a'', CHR 0x27]) =
     (Inl NoReturn, \<lparr>sourceCode = [CHR 0x27, CHR ''a'', CHR 0x27], currentPosition = 1, line = 1\<rparr>)"
  by code_simp

section \<open>Blank sources\<close>

text \<open>
  C9. For a source text that consists only of spaces, tabs, carriage returns, newlines
  and comments, the first call of \<open>getNextToken\<close> on the fresh scanner returns the
  end-of-input token with the empty lexeme and with line 1 plus the number of newline
  characters of the source; the cursor is then at the end of the source.
\<close>

theorem getNextToken_blank_source:
  assumes "onlyWhitespaceAndComments src"
  shows "getNextToken (newScanner src) =
    (Inr (Token END_OF_FILE [] (1 + count_list src (CHR 0x0A))),
     \<lparr>sourceCode = src, currentPosition = length src, line = 1 + count_list src (CHR 0x0A)\<rparr>)"
proof -
  have "skipWhitespaceAndComments (newScanner src) =
      (Inr (), \<lparr>sourceCode = src, currentPosition = length src,
         line = 1 + count_list src (CHR 0x0A)\<rparr>)"
    using skipWhitespaceAndComments_blank [of "newScanner src"] assms
    by (simp add: newScanner_def)
  then show ?thesis
    by (simp add: getNextToken_def isAtEnd_def)
qed

theorem getNextToken_blank_source_witness:
  "onlyWhitespaceAndComments [CHR '' '', CHR 0x0A, CHR ''#'', CHR ''x'', CHR 0x0A, CHR 0x09] \<and>
   getNextToken (newScanner [CHR '' '', CHR 0x0A, CHR ''#'', CHR ''x'', CHR 0x0A, CHR 0x09]) =
     (Inr (Token END_OF_FILE [] 3),
      \<lparr>sourceCode = [CHR '' '', CHR 0x0A, CHR ''#'', CHR ''x'', CHR 0x0A, CHR 0x09],
        currentPosition = 6, line = 3\<rparr>)"
proof -
  have b: "onlyWhitespaceAndComments [CHR '' '', CHR 0x0A, CHR ''#'', CHR ''x'', CHR 0x0A, CHR 0x09]"
    by simp
  from getNextToken_blank_source [OF b] b show ?thesis
    by simp
qed

section \<open>Reads of the source buffer\<close>

text \<open>
  C10. No read of the source buffer made during \<open>getNextToken\<close> is at an index beyond
  the length of the buffer: the call never ends in \<open>OutOfRange\<close>. In particular
  \<open>peekChar\<close> never does: when its unguarded access at \<open>currentPosition_ + 1\<close> is
  reached the scanner is not at the end, so that index is at most the length.
\<close>

theorem getNextToken_reads_in_range:
  "fst (getNextToken s) \<noteq> Inl OutOfRange \<and> peekChar s \<noteq> Inl OutOfRange \<and>
   (\<not> isAtEnd s \<longrightarrow> currentPosition s + 1 \<le> length (sourceCode s))"
proof (intro conjI impI)
  obtain r p l where "getNextToken s = (r, s\<lparr>currentPosition := p, line := l\<rparr>)" "r \<noteq> Inl OutOfRange"
    using getNextToken_step [of s] by blast
  then show "fst (getNextToken s) \<noteq> Inl OutOfRange" by simp
next
  show "peekChar s \<noteq> Inl OutOfRange"
    using peekChar_in_range [of s] by auto
next
  assume "\<not> isAtEnd s"
  then show "currentPosition s + 1 \<le> length (sourceCode s)"
    by (simp add: isAtEnd_def)
qed

theorem getNextToken_reads_in_range_witness:
  "\<not> isAtEnd (newScanner ''a='') \<and>
   currentPosition (newScanner ''a='') + 1 \<le> length (sourceCode (newScanner ''a='')) \<and>
   peekChar (newScanner ''a='') \<noteq> Inl OutOfRange"
  using getNextToken_reads_in_range [of "newScanner ''a=''"]
  by (simp add: isAtEnd_def newScanner_def)

end
